theory Spec2Isabelle
  imports Complex_Main "HOL-Library.Word"
begin

unbundle bit_operations_syntax

section \<open>scripts/monitor\_cpu.py: the SMN register file\<close>

text \<open>
  The script talks to the driver through the sysfs file \<^verbatim>\<open>smn\<close>: it writes a packed
  32-bit address and reads the register's text back. Python integers are unbounded, so
  every integer of the script is an \<^typ>\<open>int\<close>; \<^verbatim>\<open>>>\<close>, \<^verbatim>\<open>&\<close> and \<^verbatim>\<open>|\<close> on Python
  integers are \<^const>\<open>drop_bit\<close>, \<open>AND\<close> and \<open>OR\<close> on \<^typ>\<open>int\<close> (two's complement
  with infinitely many sign bits on both sides).
\<close>

datatype py_error = ValueError | StructError | ZeroDivisionError | OverflowError

datatype message =
    Read_file_failed nat  \<comment> \<open>\<^verbatim>\<open>"Read file (..) failed with {1}"\<close>, with the length read\<close>
  | Failed_to_read_SMN int  \<comment> \<open>\<^verbatim>\<open>"Failed to read SMN address: {:08X}"\<close>\<close>

text \<open>
  The part of the world \<^verbatim>\<open>read_smn_addr\<close> touches. \<open>accepted v\<close> is what \<^verbatim>\<open>fp.write\<close>
  returns when the four bytes of \<open>v\<close> are written to the file, \<open>register_text a\<close> is the
  text the file holds once address \<open>a\<close> is selected, \<open>selected\<close> is the address written
  last, \<open>stdout\<close> collects what \<^verbatim>\<open>print\<close> emits, and \<open>int16\<close> stands for the builtin
  \<^verbatim>\<open>int(value, base=16)\<close>, \<open>None\<close> where it raises \<^verbatim>\<open>ValueError\<close>.
  An \<^verbatim>\<open>open\<close> that fails and an address that \<^verbatim>\<open>struct.pack\<close> rejects are not
  modelled: the file is there once the driver is loaded, and the three addresses the
  script writes fit in 32 bits.
\<close>

record world =
  accepted :: "int \<Rightarrow> nat"
  register_text :: "int \<Rightarrow> string"
  selected :: int
  stdout :: "message list"
  int16 :: "string \<Rightarrow> int option"

definition print :: "message \<Rightarrow> world \<Rightarrow> world" where
  "print m w = w\<lparr>stdout := stdout w @ [m]\<rparr>"

definition write_file32 :: "world \<Rightarrow> int \<Rightarrow> world \<times> bool" where
  "write_file32 w v = (let result = accepted w v in (w\<lparr>selected := v\<rparr>, result = 4))"

definition read_file_str :: "world \<Rightarrow> nat \<Rightarrow> world \<times> string option" where
  "read_file_str w expectedLen =
     (let result = take expectedLen (register_text w (selected w))
      in if length result \<noteq> expectedLen
         then (print (Read_file_failed (length result)) w, None)
         else (w, Some result))"

definition read_smn_addr :: "world \<Rightarrow> int \<Rightarrow> world \<times> (py_error + int)" where
  "read_smn_addr w addr =
     (case write_file32 w addr of
        (w1, False) \<Rightarrow> (print (Failed_to_read_SMN addr) w1, Inr 0)
      | (w1, True) \<Rightarrow>
          (case read_file_str w1 9 of
             (w2, None) \<Rightarrow> (print (Failed_to_read_SMN addr) w2, Inr 0)
           | (w2, Some v) \<Rightarrow>
               (case int16 w2 v of
                  None \<Rightarrow> (w2, Inl ValueError)
                | Some n \<Rightarrow> (w2, Inr n))))"

section \<open>getCCDCount\<close>

text \<open>
  The three assignments of lines 86 to 90, as functions of the values the three reads
  returned.
\<close>

definition value1_of :: "int \<Rightarrow> int" where
  "value1_of r1 = drop_bit 22 r1 AND 0xff"

definition value2_of :: "int \<Rightarrow> int" where
  "value2_of r2 = drop_bit 30 r2 AND 0xff"

definition value3_of :: "int \<Rightarrow> int" where
  "value3_of r3 = r3 AND 0x3f"

definition value4_of :: "int \<Rightarrow> int \<Rightarrow> int" where
  "value4_of r2 r3 = value2_of r2 OR (4 * value3_of r3)"

text \<open>Lines 92 to 95: the conditional with the empty first branch.\<close>

definition bit0_step :: "int \<Rightarrow> int \<Rightarrow> int \<Rightarrow> int" where
  "bit0_step value1 value4 ccdCount =
     (if (value1 AND 1) = 0 \<or> (value4 AND 1) \<noteq> 0 then ccdCount else ccdCount + 1)"

text \<open>One of the \<^verbatim>\<open>if\<close> statements of lines 97 to 116, for the mask it names.\<close>

definition mask_step :: "int \<Rightarrow> int \<Rightarrow> int \<Rightarrow> int \<Rightarrow> int" where
  "mask_step m value1 value4 ccdCount =
     (if (m AND value1) \<noteq> 0 \<and> (m AND value4) = 0 then ccdCount + 1 else ccdCount)"

text \<open>Lines 97 to 116 in the order of the source: seven statements, seven masks.\<close>

definition high_mask_steps :: "int \<Rightarrow> int \<Rightarrow> int \<Rightarrow> int" where
  "high_mask_steps value1 value4 ccdCount =
     (let c1 = mask_step 0x80000000 value1 value4 ccdCount;
          c2 = mask_step 0x40000000 value1 value4 c1;
          c3 = mask_step 0x20000000 value1 value4 c2;
          c4 = mask_step 0x10000000 value1 value4 c3;
          c5 = mask_step 0x8000000 value1 value4 c4;
          c6 = mask_step 0x4000000 value1 value4 c5;
          c7 = mask_step 0x2000000 value1 value4 c6
      in c7)"

text \<open>The count as a function of the three register values (lines 84 to 118).\<close>

definition ccd_count :: "int \<Rightarrow> int \<Rightarrow> int \<Rightarrow> int" where
  "ccd_count r1 r2 r3 =
     (let value1 = value1_of r1;
          value4 = value4_of r2 r3
      in high_mask_steps value1 value4 (bit0_step value1 value4 0))"

text \<open>
  \<^verbatim>\<open>getCCDCount\<close> itself: three reads in the order of the source, each of which may
  raise, then the count.
\<close>

definition getCCDCount :: "world \<Rightarrow> world \<times> (py_error + int)" where
  "getCCDCount w =
     (case read_smn_addr w 0x5D21A of
        (w1, Inl e) \<Rightarrow> (w1, Inl e)
      | (w1, Inr r1) \<Rightarrow>
          (case read_smn_addr w1 0x5D21B of
             (w2, Inl e) \<Rightarrow> (w2, Inl e)
           | (w2, Inr r2) \<Rightarrow>
               (case read_smn_addr w2 0x5D21C of
                  (w3, Inl e) \<Rightarrow> (w3, Inl e)
                | (w3, Inr r3) \<Rightarrow> (w3, Inr (ccd_count r1 r2 r3)))))"

definition getCoreCount :: nat where
  "getCoreCount = 8"



text \<open>
  A register read fails when the write of the address is short or the file yields fewer
  than the nine characters asked for.
\<close>

definition read_fails :: "world \<Rightarrow> int \<Rightarrow> bool" where
  "read_fails w a \<longleftrightarrow> accepted w a \<noteq> 4 \<or> length (register_text w a) < 9"

text \<open>
  The value \<^const>\<open>read_smn_addr\<close> hands back, read off the parts of the world that
  no call changes.
\<close>

definition smn_value :: "world \<Rightarrow> int \<Rightarrow> py_error + int" where
  "smn_value w a =
     (if read_fails w a then Inr 0
      else case int16 w (take 9 (register_text w a)) of
             None \<Rightarrow> Inl ValueError
           | Some n \<Rightarrow> Inr n)"

text \<open>
  A driver that serves \<^verbatim>\<open>00400000\<close> and a newline for every register except
  \<open>0x5D21B\<close>, where the read comes back with four characters only.
\<close>

definition short_read_world :: world where
  "short_read_world =
     \<lparr>accepted = (\<lambda>_. 4),
      register_text = (\<lambda>a. if a = 0x5D21B then ''0000'' else ''00400000'' @ [CHR 0x0A]),
      selected = 0,
      stdout = [],
      int16 = (\<lambda>s. if s = ''00400000'' @ [CHR 0x0A] then Some 0x400000 else None)\<rparr>"

section \<open>Python floats\<close>

text \<open>
  A Python \<^verbatim>\<open>float\<close> is an IEEE 754 binary64 value. It is modelled by the value it
  denotes: a rational, one of the two infinities, or NaN. The sign of a zero is not kept:
  \<^verbatim>\<open><\<close> and \<^verbatim>\<open>==\<close> do not see it, and a division by either zero raises in Python.
  The integers \<^verbatim>\<open>0\<close>, \<^verbatim>\<open>100\<close> and \<^verbatim>\<open>cores\<close> that the script mixes with floats
  are converted as Python converts them.
\<close>

datatype pyfloat = NaN | NegInf | Fin rat | PosInf

text \<open>
  Rounding a rational to the nearest binary64 value, ties to even: \<open>ilog2 q\<close> is the
  binary exponent of \<open>q > 0\<close> (\<open>halvings q\<close> counts how often \<open>q \<ge> 2\<close> can be
  halved), the exponent is held at \<open>- 1022\<close> for subnormal results, the scaled value is
  rounded to an integer number of units in the last place, and a result of \<open>2 ^ 1024\<close>
  or more overflows to an infinity.
\<close>

definition pow2 :: "int \<Rightarrow> rat" where
  "pow2 e = (if 0 \<le> e then 2 ^ nat e else 1 / 2 ^ nat (- e))"

function halvings :: "rat \<Rightarrow> nat" where
  "halvings q = (if q < 2 then 0 else Suc (halvings (q / 2)))"
  by pat_completeness auto
termination
proof (relation "measure (\<lambda>q. nat \<lfloor>q\<rfloor>)")
  show "wf (measure (\<lambda>q. nat \<lfloor>q\<rfloor>))" by simp
next
  fix q :: rat
  assume "\<not> q < 2"
  then have big: "2 \<le> q" by simp
  then have "q / 2 \<le> q - 1" by simp
  then have "\<lfloor>q / 2\<rfloor> \<le> \<lfloor>q - 1\<rfloor>" by (rule floor_mono)
  moreover from big have "2 \<le> \<lfloor>q\<rfloor>" by (simp add: le_floor_iff)
  ultimately show "(q / 2, q) \<in> measure (\<lambda>q. nat \<lfloor>q\<rfloor>)"
    by simp
qed

definition ilog2 :: "rat \<Rightarrow> int" where
  "ilog2 q =
     (if 1 \<le> q then int (halvings q)
      else let h = halvings (1 / q)
           in if 1 / q = 2 ^ h then - int h else - int h - 1)"

definition nearest_even :: "rat \<Rightarrow> int \<Rightarrow> int" where
  "nearest_even m f =
     (if m - of_int f < 1 / 2 then f
      else if 1 / 2 < m - of_int f then f + 1
      else if even f then f else f + 1)"

definition round_half_even :: "rat \<Rightarrow> int" where
  "round_half_even m = nearest_even m \<lfloor>m\<rfloor>"

definition finite_or_inf :: "int \<Rightarrow> rat \<Rightarrow> pyfloat" where
  "finite_or_inf e v = (if e < 1023 then Fin v else if pow2 1024 \<le> v then PosInf else Fin v)"

definition round_at :: "rat \<Rightarrow> int \<Rightarrow> pyfloat" where
  "round_at a e = finite_or_inf e (of_int (round_half_even (a / pow2 (e - 52))) * pow2 (e - 52))"

definition round_pos :: "rat \<Rightarrow> pyfloat" where
  "round_pos a = round_at a (max (ilog2 a) (- 1022))"

fun py_neg :: "pyfloat \<Rightarrow> pyfloat" where
  "py_neg NaN = NaN"
| "py_neg NegInf = PosInf"
| "py_neg PosInf = NegInf"
| "py_neg (Fin a) = Fin (- a)"

definition round64 :: "rat \<Rightarrow> pyfloat" where
  "round64 q =
     (if q = 0 then Fin 0 else if q < 0 then py_neg (round_pos (- q)) else round_pos q)"

text \<open>
  Comparison: every comparison with NaN is false. \<open>py_max x y\<close> is the builtin
  \<^verbatim>\<open>max(x, y)\<close>, which returns \<open>y\<close> only when \<open>y > x\<close>.
\<close>

fun py_lt :: "pyfloat \<Rightarrow> pyfloat \<Rightarrow> bool" where
  "py_lt NaN _ = False"
| "py_lt _ NaN = False"
| "py_lt PosInf _ = False"
| "py_lt _ NegInf = False"
| "py_lt NegInf _ = True"
| "py_lt _ PosInf = True"
| "py_lt (Fin a) (Fin b) = (a < b)"

definition py_eq :: "pyfloat \<Rightarrow> pyfloat \<Rightarrow> bool" where
  "py_eq x y = (x \<noteq> NaN \<and> x = y)"

definition py_ge :: "pyfloat \<Rightarrow> pyfloat \<Rightarrow> bool" where
  "py_ge x y = (py_lt y x \<or> py_eq x y)"

definition py_max :: "pyfloat \<Rightarrow> pyfloat \<Rightarrow> pyfloat" where
  "py_max x y = (if py_lt x y then y else x)"

text \<open>
  Arithmetic: the exact result, rounded. \<open>py_div\<close> is the quotient for a divisor that
  is not zero; \<open>py_truediv\<close> is Python's \<^verbatim>\<open>/\<close>, which raises
  \<^verbatim>\<open>ZeroDivisionError\<close> before it divides by zero. \<open>float_of_nat\<close> converts an
  integer operand and raises \<^verbatim>\<open>OverflowError\<close> when it is too large for a float.
\<close>

fun sign_of :: "pyfloat \<Rightarrow> int" where
  "sign_of NaN = 0"
| "sign_of NegInf = - 1"
| "sign_of PosInf = 1"
| "sign_of (Fin a) = (if a < 0 then - 1 else if a = 0 then 0 else 1)"

definition signed_inf :: "int \<Rightarrow> pyfloat" where
  "signed_inf s = (if s = 0 then NaN else if s < 0 then NegInf else PosInf)"

fun py_add :: "pyfloat \<Rightarrow> pyfloat \<Rightarrow> pyfloat" where
  "py_add NaN _ = NaN"
| "py_add _ NaN = NaN"
| "py_add (Fin a) (Fin b) = round64 (a + b)"
| "py_add PosInf NegInf = NaN"
| "py_add NegInf PosInf = NaN"
| "py_add PosInf _ = PosInf"
| "py_add NegInf _ = NegInf"
| "py_add (Fin a) y = y"

fun py_mul :: "pyfloat \<Rightarrow> pyfloat \<Rightarrow> pyfloat" where
  "py_mul NaN _ = NaN"
| "py_mul _ NaN = NaN"
| "py_mul (Fin a) (Fin b) = round64 (a * b)"
| "py_mul x y = signed_inf (sign_of x * sign_of y)"

fun py_div :: "pyfloat \<Rightarrow> pyfloat \<Rightarrow> pyfloat" where
  "py_div NaN _ = NaN"
| "py_div _ NaN = NaN"
| "py_div (Fin a) (Fin b) = (if b = 0 then NaN else round64 (a / b))"
| "py_div (Fin a) _ = Fin 0"
| "py_div x (Fin b) = signed_inf (sign_of x * sign_of (Fin b))"
| "py_div _ _ = NaN"

definition py_truediv :: "pyfloat \<Rightarrow> pyfloat \<Rightarrow> py_error + pyfloat" where
  "py_truediv x y = (if py_eq y (Fin 0) then Inl ZeroDivisionError else Inr (py_div x y))"

definition float_of_nat :: "nat \<Rightarrow> py_error + pyfloat" where
  "float_of_nat n = (case round64 (of_nat n) of Fin v \<Rightarrow> Inr (Fin v) | _ \<Rightarrow> Inl OverflowError)"


section \<open>Reading the PM table\<close>

text \<open>
  The table is a \<^verbatim>\<open>bytes\<close> object. \<^verbatim>\<open>struct.unpack("@f", buffer[offset:offset + 4])\<close>
  takes the slice, which is shorter than four bytes when the buffer ends early, raises
  \<^verbatim>\<open>struct.error\<close> unless it has exactly four bytes, and otherwise reads them as a
  binary32 value (little-endian, the byte order of the machines the driver runs on), which
  converts to a Python float without rounding.
\<close>

type_synonym bytes = "8 word list"

definition le_u32 :: "bytes \<Rightarrow> nat" where
  "le_u32 bs = foldr (\<lambda>b acc. unat b + 256 * acc) bs 0"

definition float32_value :: "nat \<Rightarrow> pyfloat" where
  "float32_value w =
     (let s = (w div 2 ^ 31) mod 2;
          e = (w div 2 ^ 23) mod 256;
          m = w mod 2 ^ 23
      in if e = 255 then (if m \<noteq> 0 then NaN else if s = 1 then NegInf else PosInf)
         else let mag = (if e = 0 then of_nat m * pow2 (- 149)
                         else of_nat (2 ^ 23 + m) * pow2 (int e - 150))
              in Fin (if s = 1 then - mag else mag))"

definition read_float :: "bytes \<Rightarrow> nat \<Rightarrow> py_error + pyfloat" where
  "read_float buffer offset =
     (let chunk = take 4 (drop offset buffer)
      in if length chunk \<noteq> 4 then Inl StructError
         else Inr (float32_value (le_u32 chunk)))"

section \<open>parse\_pm\_table\<close>

text \<open>
  One pass of the \<^verbatim>\<open>while True\<close> loop of \<^verbatim>\<open>parse_pm_table\<close>, from line 138 to line
  198, as a function of the table \<open>pm\<close> and of \<open>cores\<close> (the source takes it from
  \<^verbatim>\<open>getCoreCount\<close>). \<open>and_then\<close> sequences two steps, the second of which runs only
  when the first did not raise. The \<^verbatim>\<open>print\<close> calls only format values and are left
  out, except for the three divisions among their arguments, which can raise.

  \<open>core_loop\<close> is the inner \<^verbatim>\<open>while i < cores\<close> loop. \<open>per_core\<close> records the
  \<^verbatim>\<open>freq\<close> and \<^verbatim>\<open>activity\<close> of each pass; \<open>peakActivity\<close> is \<open>None\<close> as long as
  the source has not assigned it.
\<close>

definition and_then :: "py_error + 'a \<Rightarrow> ('a \<Rightarrow> py_error + 'b) \<Rightarrow> py_error + 'b" where
  "and_then r f = (case r of Inl e \<Rightarrow> Inl e | Inr v \<Rightarrow> f v)"

record loop_vars =
  totalA :: pyfloat
  peakFreq :: pyfloat
  peakActivity :: "pyfloat option"
  per_core :: "(pyfloat \<times> pyfloat) list"

function core_loop :: "bytes \<Rightarrow> nat \<Rightarrow> nat \<Rightarrow> loop_vars \<Rightarrow> py_error + loop_vars" where
  "core_loop pm cores i v =
     (if i < cores then
        and_then (read_float pm (0x30C + i * 4)) (\<lambda>raw.
        let freq = py_mul raw (Fin 1000) in
        and_then (read_float pm (0x32C + i * 4)) (\<lambda>activity.
        let v1 = (if py_lt (peakFreq v) freq
                  then v\<lparr>peakFreq := freq, peakActivity := Some activity\<rparr> else v);
            v2 = v1\<lparr>totalA := py_add (totalA v1) activity,
                    per_core := per_core v1 @ [(freq, activity)]\<rparr>
        in core_loop pm cores (i + 1) v2))
      else Inr v)"
  by pat_completeness auto
termination
  by (relation "measure (\<lambda>(pm, cores, i, v). cores - i)") auto


text \<open>
  The values one pass computes. \<open>edcU_raw\<close> is \<^verbatim>\<open>edcU\<close> as line 164 assigns it and
  \<open>edcU\<close> is \<^verbatim>\<open>edcU\<close> after lines 168 and 169.
\<close>

record snapshot =
  loop :: loop_vars
  pptW :: pyfloat
  pptU :: pyfloat
  tdcA :: pyfloat
  tdcU :: pyfloat
  tjMax :: pyfloat
  tempC :: pyfloat
  edcA :: pyfloat
  edcU_raw :: pyfloat
  edcU :: pyfloat
  CorP :: pyfloat
  SoCP :: pyfloat
  fclkMHz :: pyfloat
  uclkMHz :: pyfloat
  mclkMHz :: pyfloat
  coupledMode :: string
  vddpV :: pyfloat
  vddgV :: pyfloat

definition decode_pm :: "bytes \<Rightarrow> nat \<Rightarrow> py_error + snapshot" where
  "decode_pm pm cores =
     and_then (core_loop pm cores 0
        \<lparr>totalA = Fin 0, peakFreq = Fin 0, peakActivity = None, per_core = []\<rparr>) (\<lambda>v.
     and_then (read_float pm 0x000) (\<lambda>pptW.
     and_then (read_float pm 0x004) (\<lambda>pptU.
     and_then (read_float pm 0x008) (\<lambda>tdcA.
     and_then (read_float pm 0x00C) (\<lambda>tdcU.
     and_then (read_float pm 0x010) (\<lambda>tjMax.
     and_then (read_float pm 0x014) (\<lambda>tempC.
     and_then (read_float pm 0x020) (\<lambda>edcA.
     and_then (read_float pm 0x024) (\<lambda>raw.
     and_then (float_of_nat cores) (\<lambda>c.
     and_then (py_truediv (totalA v) c) (\<lambda>q.
     and_then (py_truediv q (Fin 100)) (\<lambda>scale.
     let edcU_raw = py_mul raw scale in
     and_then (read_float pm 0x060) (\<lambda>CorP.
     and_then (read_float pm 0x064) (\<lambda>SoCP.
     let edcU = (if py_lt edcU_raw tdcU then tdcU else edcU_raw) in
     and_then (py_truediv pptU pptW) (\<lambda>_.
     and_then (py_truediv tdcU tdcA) (\<lambda>_.
     and_then (py_truediv edcU edcA) (\<lambda>_.
     and_then (read_float pm 0x118) (\<lambda>fclkMHz.
     and_then (read_float pm 0x128) (\<lambda>uclkMHz.
     and_then (read_float pm 0x138) (\<lambda>mclkMHz.
     let coupledMode = (if py_eq uclkMHz mclkMHz then ''ON'' else ''OFF'') in
     and_then (read_float pm 0x1F4) (\<lambda>vddpV.
     and_then (read_float pm 0x1F8) (\<lambda>vddgV.
     Inr \<lparr>loop = v, pptW = pptW, pptU = pptU, tdcA = tdcA, tdcU = tdcU, tjMax = tjMax,
          tempC = tempC, edcA = edcA, edcU_raw = edcU_raw, edcU = edcU, CorP = CorP,
          SoCP = SoCP, fclkMHz = fclkMHz, uclkMHz = uclkMHz, mclkMHz = mclkMHz,
          coupledMode = coupledMode, vddpV = vddpV, vddgV = vddgV\<rparr>
     ))))))))))))))))))))))"

section \<open>Auxiliary definitions for the statements\<close>

text \<open>
  \<open>float_at pm offset\<close> is the float \<^const>\<open>read_float\<close> returns when the four bytes are
  there; \<open>core_fields pm i\<close> is the frequency and the activity of core \<open>i\<close>;
  \<open>core_step\<close> is what one pass of the inner loop does to the loop variables;
  \<open>snapshot_of\<close> collects the values of a pass that raised nothing.
\<close>

definition float_at :: "bytes \<Rightarrow> nat \<Rightarrow> pyfloat" where
  "float_at pm offset = float32_value (le_u32 (take 4 (drop offset pm)))"

definition core_fields :: "bytes \<Rightarrow> nat \<Rightarrow> pyfloat \<times> pyfloat" where
  "core_fields pm i = (py_mul (float_at pm (0x30C + i * 4)) (Fin 1000), float_at pm (0x32C + i * 4))"

definition core_step :: "loop_vars \<Rightarrow> pyfloat \<times> pyfloat \<Rightarrow> loop_vars" where
  "core_step v c =
     (let v1 = (if py_lt (peakFreq v) (fst c)
                then v\<lparr>peakFreq := fst c, peakActivity := Some (snd c)\<rparr> else v)
      in v1\<lparr>totalA := py_add (totalA v1) (snd c), per_core := per_core v1 @ [c]\<rparr>)"

definition initial_vars :: loop_vars where
  "initial_vars = \<lparr>totalA = Fin 0, peakFreq = Fin 0, peakActivity = None, per_core = []\<rparr>"

definition loop_result :: "bytes \<Rightarrow> nat \<Rightarrow> loop_vars" where
  "loop_result pm n = foldl core_step initial_vars (map (core_fields pm) [0..<n])"

definition snapshot_of :: "bytes \<Rightarrow> loop_vars \<Rightarrow> pyfloat \<Rightarrow> snapshot" where
  "snapshot_of pm v c =
     (let raw_edc = py_mul (float_at pm 0x024) (py_div (py_div (totalA v) c) (Fin 100));
          tdc = float_at pm 0x00C
      in \<lparr>loop = v, pptW = float_at pm 0x000, pptU = float_at pm 0x004,
          tdcA = float_at pm 0x008, tdcU = tdc, tjMax = float_at pm 0x010,
          tempC = float_at pm 0x014, edcA = float_at pm 0x020, edcU_raw = raw_edc,
          edcU = (if py_lt raw_edc tdc then tdc else raw_edc),
          CorP = float_at pm 0x060, SoCP = float_at pm 0x064,
          fclkMHz = float_at pm 0x118, uclkMHz = float_at pm 0x128,
          mclkMHz = float_at pm 0x138,
          coupledMode = (if py_eq (float_at pm 0x128) (float_at pm 0x138) then ''ON'' else ''OFF''),
          vddpV = float_at pm 0x1F4, vddgV = float_at pm 0x1F8\<rparr>)"

text \<open>
  Tables for the examples: \<open>pm_table patches n\<close> has \<open>n\<close> four-byte fields, each 1.0
  (\<^verbatim>\<open>00 00 80 3F\<close>) unless \<open>patches\<close> gives other bytes for its index (the offset
  divided by four).
\<close>

definition field_of :: "(nat \<times> bytes) list \<Rightarrow> nat \<Rightarrow> bytes" where
  "field_of patches k = (case map_of patches k of Some b \<Rightarrow> b | None \<Rightarrow> [0, 0, 0x80, 0x3F])"

definition pm_table :: "(nat \<times> bytes) list \<Rightarrow> nat \<Rightarrow> bytes" where
  "pm_table patches n = concat (map (field_of patches) [0..<n])"

definition plain_table :: bytes where
  "plain_table = pm_table [] 204"

definition nan_tdc_table :: bytes where
  "nan_tdc_table = pm_table [(3, [0, 0, 0xC0, 0x7F])] 204"

definition negative_freq_table :: bytes where
  "negative_freq_table = pm_table [(195, [0, 0, 0x80, 0xBF])] 204"

definition spec_example_table :: bytes where
  "spec_example_table =
     pm_table [(195, [0, 0, 0x40, 0x40]), (196, [0, 0, 0x80, 0x40]),
               (197, [0, 0, 0x80, 0x40]), (198, [0, 0, 0x60, 0x40]),
               (203, [0, 0, 0x20, 0x41]), (204, [0, 0, 0xA0, 0x41]),
               (205, [0, 0, 0xF0, 0x41]), (206, [0, 0, 0x20, 0x42])] 207"

definition coupled_table :: bytes where
  "coupled_table = pm_table [(74, [0, 0, 0xC8, 0x44]), (78, [0, 0, 0xC8, 0x44])] 204"

definition uncoupled_table :: bytes where
  "uncoupled_table = pm_table [(74, [0, 0, 0xC8, 0x44]), (78, [0xF8, 0xFF, 0xC7, 0x44])] 204"

section \<open>Properties of the resolver\<close>

subsection \<open>Reading a register\<close>

lemma read_smn_addr_short_write:
  "accepted w a \<noteq> 4 \<Longrightarrow>
   read_smn_addr w a = (w\<lparr>selected := a, stdout := stdout w @ [Failed_to_read_SMN a]\<rparr>, Inr 0)"
  by (simp add: read_smn_addr_def write_file32_def print_def)

lemma read_smn_addr_short_read:
  "accepted w a = 4 \<Longrightarrow> length (register_text w a) < 9 \<Longrightarrow>
   read_smn_addr w a =
     (w\<lparr>selected := a,
        stdout := stdout w @ [Read_file_failed (length (register_text w a)), Failed_to_read_SMN a]\<rparr>,
      Inr 0)"
  by (simp add: read_smn_addr_def write_file32_def read_file_str_def print_def)

lemma read_smn_addr_complete:
  "accepted w a = 4 \<Longrightarrow> 9 \<le> length (register_text w a) \<Longrightarrow>
   read_smn_addr w a =
     (w\<lparr>selected := a\<rparr>,
      case int16 w (take 9 (register_text w a)) of None \<Rightarrow> Inl ValueError | Some n \<Rightarrow> Inr n)"
  by (simp add: read_smn_addr_def write_file32_def read_file_str_def split: option.splits)

lemma read_smn_addr_cases:
  obtains (short_write) "accepted w a \<noteq> 4"
  | (short_read) "accepted w a = 4" "length (register_text w a) < 9"
  | (complete) "accepted w a = 4" "9 \<le> length (register_text w a)"
  by linarith

lemma read_smn_addr_snd: "snd (read_smn_addr w a) = smn_value w a"
  by (cases w a rule: read_smn_addr_cases)
    (simp_all add: read_smn_addr_short_write read_smn_addr_short_read read_smn_addr_complete
      smn_value_def read_fails_def)

lemma read_smn_addr_static:
  "accepted (fst (read_smn_addr w a)) = accepted w \<and>
   register_text (fst (read_smn_addr w a)) = register_text w \<and>
   int16 (fst (read_smn_addr w a)) = int16 w"
  by (cases w a rule: read_smn_addr_cases)
    (simp_all add: read_smn_addr_short_write read_smn_addr_short_read read_smn_addr_complete)

lemma smn_value_read_smn_addr: "smn_value (fst (read_smn_addr w a)) b = smn_value w b"
  by (simp add: smn_value_def read_fails_def read_smn_addr_static)

lemma read_smn_addr_stdout:
  "read_fails w a \<Longrightarrow> last (stdout (fst (read_smn_addr w a))) = Failed_to_read_SMN a"
  by (cases w a rule: read_smn_addr_cases)
    (simp_all add: read_smn_addr_short_write read_smn_addr_short_read read_fails_def)

lemma getCCDCount_snd:
  "snd (getCCDCount w) =
     (case smn_value w 0x5D21A of Inl e \<Rightarrow> Inl e | Inr r1 \<Rightarrow>
      (case smn_value w 0x5D21B of Inl e \<Rightarrow> Inl e | Inr r2 \<Rightarrow>
       (case smn_value w 0x5D21C of Inl e \<Rightarrow> Inl e | Inr r3 \<Rightarrow> Inr (ccd_count r1 r2 r3))))"
proof -
  obtain w1 x1 where r1: "read_smn_addr w 0x5D21A = (w1, x1)" by force
  obtain w2 x2 where r2: "read_smn_addr w1 0x5D21B = (w2, x2)" by force
  obtain w3 x3 where r3: "read_smn_addr w2 0x5D21C = (w3, x3)" by force
  have x1: "x1 = smn_value w 0x5D21A"
    using read_smn_addr_snd [of w "0x5D21A"] r1 by simp
  have s1: "smn_value w1 b = smn_value w b" for b
    using smn_value_read_smn_addr [of w "0x5D21A" b] r1 by simp
  have x2: "x2 = smn_value w 0x5D21B"
    using read_smn_addr_snd [of w1 "0x5D21B"] r2 s1 by simp
  have s2: "smn_value w2 b = smn_value w b" for b
    using smn_value_read_smn_addr [of w1 "0x5D21B" b] r2 s1 by simp
  have x3: "x3 = smn_value w 0x5D21C"
    using read_smn_addr_snd [of w2 "0x5D21C"] r3 s2 by simp
  show ?thesis
    unfolding getCCDCount_def r1 x1 [symmetric]
    by (cases x1; cases x2; cases x3) (simp_all add: r2 r3 x2 [symmetric] x3 [symmetric])
qed

lemma short_read_world_values:
  "smn_value short_read_world 0x5D21A = Inr 0x400000"
  "smn_value short_read_world 0x5D21B = Inr 0"
  "smn_value short_read_world 0x5D21C = Inr 0x400000"
  by (simp_all add: smn_value_def read_fails_def short_read_world_def)

lemma short_read_world_fails: "read_fails short_read_world 0x5D21B"
  by (simp add: read_fails_def short_read_world_def)

lemma ccd_count_example: "ccd_count 0x400000 0 0x400000 = 1"
  by (simp add: ccd_count_def high_mask_steps_def mask_step_def bit0_step_def value1_of_def
      value4_of_def value2_of_def value3_of_def)

subsection \<open>The bit tests\<close>

lemma value1_of_high_mask: "m AND 0xff = 0 \<Longrightarrow> value1_of r AND m = 0"
proof -
  assume h: "m AND 0xff = 0"
  have "(drop_bit 22 r AND 0xff) AND m = (m AND 0xff) AND drop_bit 22 r"
    by (simp add: ac_simps)
  with h show ?thesis by (simp add: value1_of_def)
qed

lemma high_mask_steps_value1: "high_mask_steps (value1_of r) v4 c = c"
  by (simp add: high_mask_steps_def mask_step_def value1_of_high_mask and.commute [of _ "value1_of r"])


lemma bit0_step_0_or_1: "bit0_step v1 v4 0 = 0 \<or> bit0_step v1 v4 0 = 1"
  by (simp add: bit0_step_def)

lemma ccd_count_bit0: "ccd_count r1 r2 r3 = bit0_step (value1_of r1) (value4_of r2 r3) 0"
  by (simp add: ccd_count_def high_mask_steps_value1)

section \<open>Claims about the resolver\<close>


text \<open>
  C2: for every register-read function \<open>read\<close>, with
  \<open>v1 = (read(0x5D21A) >> 22) & 0xFF\<close> and
  \<open>v4 = ((read(0x5D21B) >> 30) & 0xFF) | (4 * (read(0x5D21C) & 0x3F))\<close>, these are the
  \<open>value1\<close> and \<open>value4\<close> the resolver computes, it runs the conditional of lines 92
  to 95 on them from the count 0, the conditional takes the count to 1 exactly when
  \<open>(v1 & 1) != 0\<close> and \<open>(v4 & 1) == 0\<close> and leaves it at 0 otherwise, and that is
  the count the resolver returns.
\<close>

theorem bit0_step_increments_iff:
  fixes read :: "int \<Rightarrow> int"
  defines "v1 \<equiv> drop_bit 22 (read 0x5D21A) AND 0xFF"
    and "v4 \<equiv> (drop_bit 30 (read 0x5D21B) AND 0xFF) OR (4 * (read 0x5D21C AND 0x3F))"
  shows "value1_of (read 0x5D21A) = v1 \<and> value4_of (read 0x5D21B) (read 0x5D21C) = v4 \<and>
         bit0_step v1 v4 0 = (if (v1 AND 1) \<noteq> 0 \<and> (v4 AND 1) = 0 then 1 else 0) \<and>
         ccd_count (read 0x5D21A) (read 0x5D21B) (read 0x5D21C) =
           high_mask_steps v1 v4 (bit0_step v1 v4 0) \<and>
         ccd_count (read 0x5D21A) (read 0x5D21B) (read 0x5D21C) =
           (if (v1 AND 1) \<noteq> 0 \<and> (v4 AND 1) = 0 then 1 else 0)"
proof -
  have v1: "value1_of (read 0x5D21A) = v1"
    by (simp add: v1_def value1_of_def)
  have v4: "value4_of (read 0x5D21B) (read 0x5D21C) = v4"
    by (simp add: v4_def value4_of_def value2_of_def value3_of_def)
  have step: "bit0_step v1 v4 0 = (if (v1 AND 1) \<noteq> 0 \<and> (v4 AND 1) = 0 then 1 else 0)"
    by (simp add: bit0_step_def)
  have run: "ccd_count (read 0x5D21A) (read 0x5D21B) (read 0x5D21C) =
      high_mask_steps v1 v4 (bit0_step v1 v4 0)"
    by (simp add: ccd_count_def v1 v4)
  have "ccd_count (read 0x5D21A) (read 0x5D21B) (read 0x5D21C) = bit0_step v1 v4 0"
    using ccd_count_bit0 [of "read 0x5D21A" "read 0x5D21B" "read 0x5D21C"]
    by (simp only: v1 v4)
  with step have count: "ccd_count (read 0x5D21A) (read 0x5D21B) (read 0x5D21C) =
      (if (v1 AND 1) \<noteq> 0 \<and> (v4 AND 1) = 0 then 1 else 0)"
    by (simp only:)
  from v1 v4 step run count show ?thesis
    by (intro conjI)
qed

text \<open>
  C3, as the specification states it: a failed register read makes the whole resolution
  fail with a typed failure, and no CCD count is produced. In \<^const>\<open>short_read_world\<close>
  the read of \<open>0x5D21B\<close> fails, \<^verbatim>\<open>read_smn_addr\<close> returns 0 for it, and
  \<^verbatim>\<open>getCCDCount\<close> returns the count 1.
\<close>

theorem failed_read_counterexample:
  "read_fails short_read_world 0x5D21B \<and>
   snd (read_smn_addr short_read_world 0x5D21B) = Inr 0 \<and>
   snd (getCCDCount short_read_world) = Inr 1"
  by (simp add: short_read_world_fails read_smn_addr_snd getCCDCount_snd
      short_read_world_values ccd_count_example)

text \<open>
  C3, amended: when one of the three register reads fails (short write or short read),
  \<^verbatim>\<open>read_smn_addr\<close> prints \<^verbatim>\<open>Failed to read SMN address\<close> and returns 0 in place of the
  register's value; \<^verbatim>\<open>getCCDCount\<close> raises nothing for it and, when no read raises
  \<^verbatim>\<open>ValueError\<close>, returns the count computed from the three values, the failed one
  being 0.
\<close>

theorem failed_read_defaults_to_zero:
  assumes "read_fails w a"
    and "a = 0x5D21A \<or> a = 0x5D21B \<or> a = 0x5D21C"
    and "snd (read_smn_addr w 0x5D21A) = Inr r1"
    and "snd (read_smn_addr w 0x5D21B) = Inr r2"
    and "snd (read_smn_addr w 0x5D21C) = Inr r3"
  shows "snd (read_smn_addr w a) = Inr 0 \<and>
         last (stdout (fst (read_smn_addr w a))) = Failed_to_read_SMN a \<and>
         snd (getCCDCount w) = Inr (ccd_count r1 r2 r3) \<and>
         (if a = 0x5D21A then r1 else if a = 0x5D21B then r2 else r3) = 0"
proof -
  have zero: "snd (read_smn_addr w a) = Inr 0"
    using assms(1) by (simp add: read_smn_addr_snd smn_value_def)
  have count: "snd (getCCDCount w) = Inr (ccd_count r1 r2 r3)"
    using assms(3-5) by (simp add: getCCDCount_snd read_smn_addr_snd)
  have "(if a = 0x5D21A then r1 else if a = 0x5D21B then r2 else r3) = 0"
    using assms(2-5) zero by auto
  with zero count read_smn_addr_stdout [OF assms(1)] show ?thesis by simp
qed

theorem failed_read_defaults_to_zero_witness:
  "read_fails short_read_world 0x5D21B \<and>
   snd (read_smn_addr short_read_world 0x5D21B) = Inr 0 \<and>
   last (stdout (fst (read_smn_addr short_read_world 0x5D21B))) = Failed_to_read_SMN 0x5D21B \<and>
   snd (getCCDCount short_read_world) = Inr (ccd_count 0x400000 0 0x400000)"
  using failed_read_defaults_to_zero [of short_read_world "0x5D21B" "0x400000" 0 "0x400000"]
  by (simp add: short_read_world_fails read_smn_addr_snd short_read_world_values)

text \<open>
  C10: whatever the three reads return, the count is 0 or 1: \<open>value1\<close> is masked to
  eight bits, so every test of lines 97 to 116 is false and only the bit-0 step can add
  to the count. The same holds for what \<^verbatim>\<open>getCCDCount\<close> returns in any world.
\<close>

theorem ccd_count_0_or_1:
  "(ccd_count r1 r2 r3 = 0 \<or> ccd_count r1 r2 r3 = 1) \<and>
   high_mask_steps (value1_of r1) v4 c = c \<and>
   ccd_count r1 r2 r3 = bit0_step (value1_of r1) (value4_of r2 r3) 0 \<and>
   (snd (getCCDCount w) = Inr n \<longrightarrow> n = 0 \<or> n = 1)"
proof -
  have c01: "ccd_count x y z = 0 \<or> ccd_count x y z = 1" for x y z
    using bit0_step_0_or_1 [of "value1_of x" "value4_of y z"] by (simp add: ccd_count_bit0)
  have "n = 0 \<or> n = 1" if "snd (getCCDCount w) = Inr n"
    using that c01 by (auto simp add: getCCDCount_snd split: sum.splits)
  with c01 [of r1 r2 r3] show ?thesis
    by (simp add: high_mask_steps_value1 ccd_count_bit0)
qed

theorem ccd_count_0_or_1_witness:
  "snd (getCCDCount short_read_world) = Inr 1 \<and> ((1 :: int) = 0 \<or> (1 :: int) = 1)"
proof -
  have run: "snd (getCCDCount short_read_world) = Inr 1"
    by (simp add: getCCDCount_snd short_read_world_values ccd_count_example)
  from ccd_count_0_or_1 [of 0 0 0 0 0 short_read_world 1]
  have "snd (getCCDCount short_read_world) = Inr 1 \<longrightarrow> (1 :: int) = 0 \<or> (1 :: int) = 1"
    by (elim conjE)
  with run show ?thesis by simp
qed

section \<open>Properties of the decoder\<close>

lemma read_float_in_range:
  "offset + 4 \<le> length pm \<Longrightarrow> read_float pm offset = Inr (float_at pm offset)"
  by (simp add: read_float_def float_at_def)

lemma read_float_out_of_range:
  "length pm < offset + 4 \<Longrightarrow> read_float pm offset = Inl StructError"
  by (simp add: read_float_def)

declare core_loop.simps [simp del]

declare halvings.simps [simp del]

lemma core_loop_done: "\<not> i < cores \<Longrightarrow> core_loop pm cores i v = Inr v"
  by (subst core_loop.simps) simp

lemma core_loop_freq_fails:
  "i < cores \<Longrightarrow> read_float pm (0x30C + i * 4) = Inl e \<Longrightarrow> core_loop pm cores i v = Inl e"
  by (subst core_loop.simps) (simp add: and_then_def)

lemma core_loop_activity_fails:
  "i < cores \<Longrightarrow> read_float pm (0x30C + i * 4) = Inr raw \<Longrightarrow>
   read_float pm (0x32C + i * 4) = Inl e \<Longrightarrow> core_loop pm cores i v = Inl e"
  by (subst core_loop.simps) (simp add: and_then_def)

lemma core_loop_step:
  "i < cores \<Longrightarrow> read_float pm (0x30C + i * 4) = Inr raw \<Longrightarrow>
   read_float pm (0x32C + i * 4) = Inr activity \<Longrightarrow>
   core_loop pm cores i v =
     core_loop pm cores (Suc i) (core_step v (py_mul raw (Fin 1000), activity))"
  by (subst core_loop.simps) (simp add: and_then_def core_step_def Let_def)

lemma read_float_error: "read_float pm offset = Inl e \<Longrightarrow> e = StructError"
  by (simp add: read_float_def Let_def split: if_splits)

lemma read_float_length: "read_float pm offset = Inr x \<Longrightarrow> offset + 4 \<le> length pm"
  by (simp add: read_float_def Let_def split: if_splits)

lemma core_loop_in_range:
  "0x32C + 4 * cores \<le> length pm \<Longrightarrow>
   core_loop pm cores i v = Inr (foldl core_step v (map (core_fields pm) [i..<cores]))"
proof (induction "cores - i" arbitrary: i v)
  case 0
  then show ?case by (simp add: core_loop_done)
next
  case (Suc k)
  then have less: "i < cores" and k: "k = cores - Suc i" by simp_all
  from less Suc.prems have r1: "read_float pm (0x30C + i * 4) = Inr (float_at pm (0x30C + i * 4))"
    and r2: "read_float pm (0x32C + i * 4) = Inr (float_at pm (0x32C + i * 4))"
    by (simp_all add: read_float_in_range)
  have "core_loop pm cores i v = core_loop pm cores (Suc i) (core_step v (core_fields pm i))"
    using core_loop_step [OF less r1 r2] by (simp add: core_fields_def)
  also have "\<dots> = Inr (foldl core_step (core_step v (core_fields pm i))
                       (map (core_fields pm) [Suc i..<cores]))"
    by (rule Suc.hyps(1) [OF k Suc.prems])
  finally show ?case using less by (simp add: upt_conv_Cons)
qed

lemma core_loop_out_of_range:
  "i < cores \<Longrightarrow> length pm < 0x32C + 4 * cores \<Longrightarrow> core_loop pm cores i v = Inl StructError"
proof (induction "cores - i" arbitrary: i v)
  case 0
  then show ?case by simp
next
  case (Suc k)
  show ?case
  proof (cases "read_float pm (0x30C + i * 4)")
    case (Inl e)
    with core_loop_freq_fails [OF Suc.prems(1) Inl] read_float_error [OF Inl]
    show ?thesis by simp
  next
    case f: (Inr raw)
    show ?thesis
    proof (cases "read_float pm (0x32C + i * 4)")
      case (Inl e)
      with core_loop_activity_fails [OF Suc.prems(1) f Inl] read_float_error [OF Inl]
      show ?thesis by simp
    next
      case a: (Inr activity)
      from read_float_length [OF a] Suc.prems have next_in: "Suc i < cores" by simp
      from Suc.hyps(2) have k: "k = cores - Suc i" by simp
      show ?thesis
        using core_loop_step [OF Suc.prems(1) f a] Suc.hyps(1) [OF k next_in Suc.prems(2)]
        by simp
    qed
  qed
qed


lemma decode_pm_out_of_range:
  "0 < n \<Longrightarrow> length pm < 0x32C + 4 * n \<Longrightarrow> decode_pm pm n = Inl StructError"
  by (simp add: decode_pm_def core_loop_out_of_range and_then_def)

lemma decode_pm_in_range:
  assumes "0x32C + 4 * n \<le> length pm"
  shows "decode_pm pm n =
     and_then (float_of_nat n) (\<lambda>c.
       if py_eq c (Fin 0) \<or> py_eq (float_at pm 0x000) (Fin 0) \<or>
          py_eq (float_at pm 0x008) (Fin 0) \<or> py_eq (float_at pm 0x020) (Fin 0)
       then Inl ZeroDivisionError
       else Inr (snapshot_of pm (loop_result pm n) c))"
proof -
  have reads: "read_float pm off = Inr (float_at pm off)" if "off \<le> 0x1F8" for off
    using that assms by (simp add: read_float_in_range)
  have hundred: "\<not> py_eq (Fin 100) (Fin 0)"
    by (simp add: py_eq_def)
  show ?thesis
    unfolding decode_pm_def
    by (cases "float_of_nat n")
      (simp_all add: core_loop_in_range [OF assms] reads and_then_def py_truediv_def hundred
        snapshot_of_def Let_def loop_result_def initial_vars_def)
qed

subsection \<open>The float model\<close>

text \<open>
  \<open>ilog2\<close> is the binary exponent: \<open>2 ^ ilog2 q \<le> q < 2 ^ (ilog2 q + 1)\<close> for
  every positive \<open>q\<close>.
\<close>

lemma halvings_bracket: "1 \<le> q \<Longrightarrow> 2 ^ halvings q \<le> q \<and> q < 2 ^ Suc (halvings q)"
proof (induction q rule: halvings.induct)
  case (1 q)
  show ?case
  proof (cases "q < 2")
    case True
    with "1.prems" show ?thesis by (simp add: halvings.simps)
  next
    case False
    then have "1 \<le> q / 2" by simp
    with "1.IH" [OF False] have "2 ^ halvings (q / 2) \<le> q / 2 \<and> q / 2 < 2 ^ Suc (halvings (q / 2))"
      by simp
    moreover from False have "halvings q = Suc (halvings (q / 2))"
      by (simp add: halvings.simps)
    ultimately show ?thesis by simp
  qed
qed

lemma pow2_neg: "pow2 (- int h) = 1 / 2 ^ h"
  by (simp add: pow2_def)

lemma pow2_nat: "pow2 (int h) = 2 ^ h"
  by (simp add: pow2_def)

lemma ilog2_bracket:
  assumes "0 < q"
  shows "pow2 (ilog2 q) \<le> q \<and> q < pow2 (ilog2 q + 1)"
proof (cases "1 \<le> q")
  case True
  have "int (halvings q) + 1 = int (Suc (halvings q))" by simp
  with halvings_bracket [OF True] True show ?thesis
    by (simp only: ilog2_def if_True pow2_nat)
next
  case False
  define y where "y = 1 / q"
  define h where "h = halvings y"
  from False assms have y: "1 < y" by (simp add: y_def)
  then have br: "2 ^ h \<le> y" "y < 2 ^ Suc h"
    using halvings_bracket [of y] by (simp_all add: h_def)
  have q: "q = 1 / y" by (simp add: y_def)
  have ypos: "0 < y" using y by simp
  show ?thesis
  proof (cases "y = 2 ^ h")
    case True
    with y have "h \<noteq> 0" by (cases h) auto
    then obtain k where k: "h = Suc k" by (cases h) auto
    have il: "ilog2 q = - int h"
      using False True by (simp add: ilog2_def Let_def y_def h_def)
    have "- int h + 1 = - int k" by (simp add: k)
    then have "pow2 (ilog2 q + 1) = 1 / 2 ^ k"
      by (simp only: il pow2_neg)
    moreover have "pow2 (ilog2 q) = 1 / 2 ^ h"
      by (simp only: il pow2_neg)
    moreover have "q = 1 / 2 ^ h" by (simp add: q True)
    moreover have "(1 :: rat) / 2 ^ h < 1 / 2 ^ k"
      unfolding k by (intro divide_strict_left_mono) simp_all
    ultimately show ?thesis by simp
  next
    case neq: False
    have il: "ilog2 q = - int (Suc h)"
      using False neq by (simp add: ilog2_def Let_def y_def h_def)
    have "- int (Suc h) + 1 = - int h" by simp
    then have up: "pow2 (ilog2 q + 1) = 1 / 2 ^ h"
      by (simp only: il pow2_neg)
    have low: "pow2 (ilog2 q) = 1 / 2 ^ Suc h"
      by (simp only: il pow2_neg)
    from br(1) neq have lt: "2 ^ h < y" by simp
    have "1 / 2 ^ Suc h \<le> 1 / y"
      using br(2) ypos by (intro divide_left_mono) simp_all
    moreover have "1 / y < 1 / 2 ^ h"
      using lt ypos by (intro divide_strict_left_mono) simp_all
    ultimately have "1 / 2 ^ Suc h \<le> q \<and> q < 1 / 2 ^ h"
      by (simp only: q)
    then show ?thesis
      by (simp only: up low)
  qed
qed

lemma py_lt_not_NaN: "py_lt x y \<Longrightarrow> x \<noteq> NaN \<and> y \<noteq> NaN"
  by (cases x; cases y) simp_all

lemma py_trichotomy: "x \<noteq> NaN \<Longrightarrow> y \<noteq> NaN \<Longrightarrow> py_lt x y \<or> py_eq x y \<or> py_lt y x"
  by (cases x; cases y) (auto simp add: py_eq_def)

lemma py_ge_py_max: "x \<noteq> NaN \<Longrightarrow> y \<noteq> NaN \<Longrightarrow> py_ge (py_max x y) y"
  using py_trichotomy [of x y] by (auto simp add: py_ge_def py_max_def py_eq_def)

lemma per_core_foldl: "per_core (foldl core_step v cs) = per_core v @ cs"
  by (induction cs arbitrary: v) (simp_all add: core_step_def Let_def)

lemma totalA_foldl: "totalA (foldl core_step v cs) = foldl py_add (totalA v) (map snd cs)"
  by (induction cs arbitrary: v) (simp_all add: core_step_def Let_def)

lemma peak_core_step:
  "peakFreq (core_step v c) = (if py_lt (peakFreq v) (fst c) then fst c else peakFreq v)"
  "peakActivity (core_step v c) =
     (if py_lt (peakFreq v) (fst c) then Some (snd c) else peakActivity v)"
  by (simp_all add: core_step_def Let_def)

lemma peak_unchanged:
  "\<forall>c \<in> set cs. \<not> py_lt (peakFreq v) (fst c) \<Longrightarrow>
   peakFreq (foldl core_step v cs) = peakFreq v \<and>
   peakActivity (foldl core_step v cs) = peakActivity v"
  by (induction cs arbitrary: v) (simp_all add: peak_core_step)

lemma peak_first_maximum:
  assumes "j < length cs"
    and "py_lt (peakFreq v) (fst (cs ! j))"
    and "\<forall>k < length cs. \<not> py_lt (fst (cs ! j)) (fst (cs ! k))"
    and "\<forall>k < j. \<not> py_eq (fst (cs ! k)) (fst (cs ! j))"
  shows "peakFreq (foldl core_step v cs) = fst (cs ! j) \<and>
         peakActivity (foldl core_step v cs) = Some (snd (cs ! j))"
  using assms
proof (induction cs arbitrary: v j)
  case Nil
  then show ?case by simp
next
  case (Cons c cs)
  show ?case
  proof (cases j)
    case 0
    have "\<not> py_lt (fst c) (fst d)" if "d \<in> set cs" for d
    proof -
      from that obtain i where "i < length cs" and "cs ! i = d"
        by (auto simp add: in_set_conv_nth)
      with Cons.prems(3) [rule_format, of "Suc i"] show ?thesis
        by (simp add: 0)
    qed
    then have "\<forall>d \<in> set cs. \<not> py_lt (fst c) (fst d)"
      by blast
    moreover from Cons.prems(2) have "peakFreq (core_step v c) = fst c"
      and "peakActivity (core_step v c) = Some (snd c)"
      unfolding 0 by (simp_all add: peak_core_step)
    ultimately show ?thesis
      using peak_unchanged [of cs "core_step v c"] 0 by simp
  next
    case (Suc i)
    let ?top = "fst (cs ! i)"
    have top: "fst ((c # cs) ! j) = ?top" "snd ((c # cs) ! j) = snd (cs ! i)"
      by (simp_all add: Suc)
    from Cons.prems(2) have above: "py_lt (peakFreq v) ?top"
      by (simp add: Suc)
    have "py_lt (peakFreq (core_step v c)) ?top"
    proof (cases "py_lt (peakFreq v) (fst c)")
      case False
      with above show ?thesis by (simp add: peak_core_step)
    next
      case True
      from Cons.prems(3) [rule_format, of 0] have "\<not> py_lt ?top (fst c)"
        by (simp add: Suc)
      moreover from Cons.prems(4) [rule_format, of 0] have "\<not> py_eq (fst c) ?top"
        by (simp add: Suc)
      moreover from True above have "fst c \<noteq> NaN" "?top \<noteq> NaN"
        by (auto dest: py_lt_not_NaN)
      ultimately have "py_lt (fst c) ?top"
        using py_trichotomy [of "fst c" ?top] by blast
      with True show ?thesis by (simp add: peak_core_step)
    qed
    moreover from Cons.prems(1) have "i < length cs" by (simp add: Suc)
    moreover from Cons.prems(3) have "\<forall>k < length cs. \<not> py_lt ?top (fst (cs ! k))"
      by (auto simp add: Suc)
    moreover from Cons.prems(4) have "\<forall>k < i. \<not> py_eq (fst (cs ! k)) ?top"
      by (auto simp add: Suc)
    ultimately show ?thesis
      using Cons.IH [of i "core_step v c"] by (simp add: top)
  qed
qed

lemma length_field_of:
  assumes "list_all (\<lambda>p. length (snd p) = 4) patches"
  shows "length (field_of patches k) = 4"
proof (cases "map_of patches k")
  case None
  then show ?thesis by (simp add: field_of_def)
next
  case (Some b)
  then have "(k, b) \<in> set patches" by (rule map_of_SomeD)
  with assms have "length b = 4" by (auto simp add: list_all_iff)
  with Some show ?thesis by (simp add: field_of_def)
qed

lemma length_pm_table:
  "list_all (\<lambda>p. length (snd p) = 4) patches \<Longrightarrow> length (pm_table patches n) = 4 * n"
  unfolding pm_table_def by (induction n) (simp_all add: length_field_of)

lemma chunk_pm_table:
  assumes "list_all (\<lambda>p. length (snd p) = 4) patches" and "k < n"
  shows "take 4 (drop (4 * k) (pm_table patches n)) = field_of patches k"
proof -
  note len = length_field_of [OF assms(1)]
  from assms(2) have "[0..<n] = [0..<k] @ [k..<n]"
    using upt_add_eq_append [of 0 k "n - k"] by simp
  with assms(2) have "[0..<n] = [0..<k] @ k # [Suc k..<n]"
    by (simp add: upt_conv_Cons)
  then have "pm_table patches n =
      pm_table patches k @ field_of patches k @ concat (map (field_of patches) [Suc k..<n])"
    by (simp add: pm_table_def)
  then show ?thesis
    by (simp add: length_pm_table [OF assms(1)] len)
qed

lemma float_at_pm_table:
  assumes "list_all (\<lambda>p. length (snd p) = 4) patches" and "offset mod 4 = 0" and "offset div 4 < n"
  shows "float_at (pm_table patches n) offset =
         float32_value (le_u32 (field_of patches (offset div 4)))"
proof -
  from assms(2) have "offset = 4 * (offset div 4)" by presburger
  then show ?thesis
    using chunk_pm_table [OF assms(1) assms(3)] by (simp add: float_at_def)
qed

lemma floor_numeral_div: "\<lfloor>(numeral a :: rat) / numeral b\<rfloor> = numeral a div numeral b"
  using floor_divide_of_int_eq [of "numeral a" "numeral b", where ?'a = rat] by simp

lemmas round64_eval = round64_def round_pos_def round_at_def finite_or_inf_def
  round_half_even_def nearest_even_def ilog2_def pow2_def halvings.simps floor_numeral_div

lemma f32_values:
  "float32_value (le_u32 [0, 0, 0x80, 0x3F]) = Fin 1"
  "float32_value (le_u32 [0, 0, 0x80, 0xBF]) = Fin (- 1)"
  "float32_value (le_u32 [0, 0, 0xC0, 0x7F]) = NaN"
  "float32_value (le_u32 [0, 0, 0x40, 0x40]) = Fin 3"
  "float32_value (le_u32 [0, 0, 0x80, 0x40]) = Fin 4"
  "float32_value (le_u32 [0, 0, 0x60, 0x40]) = Fin (7 / 2)"
  "float32_value (le_u32 [0, 0, 0x20, 0x41]) = Fin 10"
  "float32_value (le_u32 [0, 0, 0xA0, 0x41]) = Fin 20"
  "float32_value (le_u32 [0, 0, 0xF0, 0x41]) = Fin 30"
  "float32_value (le_u32 [0, 0, 0x20, 0x42]) = Fin 40"
  "float32_value (le_u32 [0, 0, 0xC8, 0x44]) = Fin 1600"
  "float32_value (le_u32 [0xF8, 0xFF, 0xC7, 0x44]) = Fin (13107192 / 8192)"
  by (simp_all add: le_u32_def float32_value_def pow2_def)

lemmas table_eval = float_at_pm_table length_pm_table field_of_def f32_values

lemma round64_values:
  "round64 1 = Fin 1"
  "round64 4 = Fin 4"
  "round64 10 = Fin 10"
  "round64 25 = Fin 25"
  "round64 30 = Fin 30"
  "round64 60 = Fin 60"
  "round64 100 = Fin 100"
  "round64 1000 = Fin 1000"
  "round64 (- 1000) = Fin (- 1000)"
  "round64 3000 = Fin 3000"
  "round64 3500 = Fin 3500"
  "round64 4000 = Fin 4000"
  "round64 (1 / 4) = Fin (1 / 4)"
  "round64 (1 / 100) = Fin (5764607523034235 / 576460752303423488)"
  "round64 (5764607523034235 / 576460752303423488) = Fin (5764607523034235 / 576460752303423488)"
  by (simp_all add: round64_eval)

lemma float_of_nat_values: "float_of_nat 1 = Inr (Fin 1)" "float_of_nat 4 = Inr (Fin 4)"
  by (simp_all add: float_of_nat_def round64_values)

lemma upt_values: "[0..<1] = [0]" "[0..<4] = [0, 1, 2, 3]"
  by (simp_all add: upt_rec)

lemma plain_table_reads:
  "float_at plain_table 0x000 = Fin 1" "float_at plain_table 0x008 = Fin 1"
  "float_at plain_table 0x00C = Fin 1" "float_at plain_table 0x020 = Fin 1"
  "float_at plain_table 0x024 = Fin 1" "float_at plain_table 0x30C = Fin 1"
  "float_at plain_table 0x32C = Fin 1" "length plain_table = 816"
  by (simp_all add: plain_table_def table_eval)


lemma float_of_nat_Inr: "float_of_nat n = Inr c \<Longrightarrow> c = round64 (of_nat n)"
  by (cases "round64 (of_nat n)") (simp_all add: float_of_nat_def)

lemma decode_pm_Inr:
  assumes "decode_pm pm n = Inr s" and "0 < n"
  shows "0x32C + 4 * n \<le> length pm \<and>
         s = snapshot_of pm (loop_result pm n) (round64 (of_nat n))"
proof -
  have len: "0x32C + 4 * n \<le> length pm"
  proof (rule ccontr)
    assume "\<not> 0x32C + 4 * n \<le> length pm"
    then have "decode_pm pm n = Inl StructError"
      using assms(2) by (simp add: decode_pm_out_of_range)
    with assms(1) show False by simp
  qed
  show ?thesis
  proof (cases "float_of_nat n")
    case (Inl e)
    with assms(1) show ?thesis
      by (simp add: decode_pm_in_range [OF len] and_then_def)
  next
    case (Inr c)
    with assms(1) len float_of_nat_Inr [OF Inr] show ?thesis
      by (simp add: decode_pm_in_range [OF len] and_then_def split: if_splits)
  qed
qed

lemma decode_pm_succeeds:
  assumes "0x32C + 4 * n \<le> length pm" and "float_of_nat n = Inr c"
    and "\<not> py_eq c (Fin 0)" and "\<not> py_eq (float_at pm 0x000) (Fin 0)"
    and "\<not> py_eq (float_at pm 0x008) (Fin 0)" and "\<not> py_eq (float_at pm 0x020) (Fin 0)"
  shows "decode_pm pm n = Inr (snapshot_of pm (loop_result pm n) c)"
  using assms(2-6) by (simp add: decode_pm_in_range [OF assms(1)] and_then_def)

lemma per_core_loop_result: "per_core (loop_result pm n) = map (core_fields pm) [0..<n]"
  by (simp add: loop_result_def per_core_foldl initial_vars_def)

lemma totalA_loop_result:
  "totalA (loop_result pm n) = foldl py_add (Fin 0) (map snd (map (core_fields pm) [0..<n]))"
  by (simp add: loop_result_def totalA_foldl initial_vars_def)

lemma loop_snapshot_of: "loop (snapshot_of pm v c) = v"
  by (simp add: snapshot_of_def Let_def)

lemma py_ge_NaN: "\<not> py_ge x NaN"
  by (cases x) (simp_all add: py_ge_def py_eq_def)

section \<open>Claims about the decoder\<close>

text \<open>
  C4, amended: whenever a pass returns its values, \<^verbatim>\<open>edcU\<close> is \<^verbatim>\<open>tdcU\<close> if the scaled
  reading is below \<^verbatim>\<open>tdcU\<close> and the scaled reading otherwise, which is Python's
  \<^verbatim>\<open>max(edcU, tdcU)\<close>; and \<^verbatim>\<open>edcU >= tdcU\<close> holds afterwards when neither the scaled
  reading nor \<^verbatim>\<open>tdcU\<close> is NaN.
\<close>

theorem edc_floor:
  assumes "decode_pm pm n = Inr s" and "0 < n"
  shows "edcU s = py_max (edcU_raw s) (tdcU s) \<and> tdcU s = float_at pm 0x00C \<and>
         (edcU_raw s \<noteq> NaN \<and> tdcU s \<noteq> NaN \<longrightarrow> py_ge (edcU s) (tdcU s))"
proof -
  from decode_pm_Inr [OF assms] obtain v c where s: "s = snapshot_of pm v c"
    by blast
  have max: "edcU s = py_max (edcU_raw s) (tdcU s)" and tdc: "tdcU s = float_at pm 0x00C"
    by (simp_all add: s snapshot_of_def Let_def py_max_def)
  have "py_ge (edcU s) (tdcU s)" if "edcU_raw s \<noteq> NaN" and "tdcU s \<noteq> NaN"
    unfolding max using that by (rule py_ge_py_max)
  with max tdc show ?thesis by simp
qed

lemma plain_decode:
  "decode_pm plain_table 1 = Inr (snapshot_of plain_table (loop_result plain_table 1) (Fin 1))"
  by (rule decode_pm_succeeds)
    (simp_all add: plain_table_reads float_of_nat_values py_eq_def del: One_nat_def)

lemma plain_loop: "totalA (loop_result plain_table 1) = Fin 1"
  by (simp add: totalA_loop_result upt_values core_fields_def plain_table_reads round64_values
      del: One_nat_def)

lemma plain_edc:
  "edcU_raw (snapshot_of plain_table (loop_result plain_table 1) (Fin 1)) =
     Fin (5764607523034235 / 576460752303423488)"
  "tdcU (snapshot_of plain_table (loop_result plain_table 1) (Fin 1)) = Fin 1"
  "edcU (snapshot_of plain_table (loop_result plain_table 1) (Fin 1)) = Fin 1"
  by (simp_all add: snapshot_of_def Let_def plain_loop plain_table_reads round64_values
      del: One_nat_def)

theorem edc_floor_witness:
  "decode_pm plain_table 1 = Inr (snapshot_of plain_table (loop_result plain_table 1) (Fin 1)) \<and>
   edcU_raw (snapshot_of plain_table (loop_result plain_table 1) (Fin 1)) =
     Fin (5764607523034235 / 576460752303423488) \<and>
   tdcU (snapshot_of plain_table (loop_result plain_table 1) (Fin 1)) = Fin 1 \<and>
   edcU (snapshot_of plain_table (loop_result plain_table 1) (Fin 1)) = Fin 1 \<and>
   py_ge (edcU (snapshot_of plain_table (loop_result plain_table 1) (Fin 1)))
     (tdcU (snapshot_of plain_table (loop_result plain_table 1) (Fin 1)))"
proof -
  let ?s = "snapshot_of plain_table (loop_result plain_table 1) (Fin 1)"
  from edc_floor [OF plain_decode zero_less_one]
  have "edcU_raw ?s \<noteq> NaN \<and> tdcU ?s \<noteq> NaN \<longrightarrow> py_ge (edcU ?s) (tdcU ?s)"
    by (elim conjE)
  then have "py_ge (edcU ?s) (tdcU ?s)"
    by (simp add: plain_edc del: One_nat_def)
  then show ?thesis
    by (intro conjI plain_decode plain_edc)
qed

lemma nan_tdc_table_reads:
  "float_at nan_tdc_table 0x000 = Fin 1" "float_at nan_tdc_table 0x008 = Fin 1"
  "float_at nan_tdc_table 0x00C = NaN" "float_at nan_tdc_table 0x020 = Fin 1"
  "length nan_tdc_table = 816"
  by (simp_all add: nan_tdc_table_def table_eval)

lemma nan_tdc_decode:
  "decode_pm nan_tdc_table 1 =
     Inr (snapshot_of nan_tdc_table (loop_result nan_tdc_table 1) (Fin 1))"
  by (rule decode_pm_succeeds)
    (simp_all add: nan_tdc_table_reads float_of_nat_values py_eq_def del: One_nat_def)

text \<open>
  C4, as the specification states it: after every decode, \<^verbatim>\<open>edcU >= tdcU\<close>. In
  \<^const>\<open>nan_tdc_table\<close> the four bytes at offset \<open>0x00C\<close> are \<^verbatim>\<open>00 00 C0 7F\<close>, a
  NaN: the pass returns its values, \<^verbatim>\<open>edcU < tdcU\<close> is false, \<^verbatim>\<open>edcU\<close> keeps the
  scaled reading, and \<^verbatim>\<open>edcU >= tdcU\<close> is false as well.
\<close>

theorem edc_floor_nan_counterexample:
  "\<not> isl (decode_pm nan_tdc_table 1) \<and>
   tdcU (projr (decode_pm nan_tdc_table 1)) = NaN \<and>
   \<not> py_ge (edcU (projr (decode_pm nan_tdc_table 1))) (tdcU (projr (decode_pm nan_tdc_table 1)))"
proof -
  have "tdcU (snapshot_of nan_tdc_table (loop_result nan_tdc_table 1) (Fin 1)) = NaN"
    by (simp add: snapshot_of_def Let_def nan_tdc_table_reads del: One_nat_def)
  then show ?thesis
    by (simp add: nan_tdc_decode py_ge_NaN del: One_nat_def)
qed

text \<open>
  C9: with at least one core and a table shorter than \<open>0x32C + 4 * cores\<close> bytes, the
  pass raises \<^verbatim>\<open>struct.error\<close> and returns no values: the read of the last core's
  activity, at the latest, finds fewer than four bytes.
\<close>

theorem short_table_raises:
  assumes "0 < n" and "length pm < 0x32C + 4 * n"
  shows "decode_pm pm n = Inl StructError"
  using assms by (rule decode_pm_out_of_range)

theorem short_table_raises_witness:
  "length (replicate 815 (0 :: 8 word)) < 0x32C + 4 * 1 \<and>
   decode_pm (replicate 815 0) 1 = Inl StructError"
proof -
  have short: "length (replicate 815 (0 :: 8 word)) < 0x32C + 4 * 1"
    by simp
  from short_table_raises [OF zero_less_one short] short show ?thesis
    by (intro conjI)
qed

lemma loop_result_foldl:
  "loop_result pm n = foldl core_step initial_vars (per_core (loop_result pm n))"
  by (simp add: per_core_loop_result) (simp add: loop_result_def)

text \<open>
  C5, amended: whenever a pass with at least one core returns its values, if core \<open>j\<close>
  has a frequency above 0, no core has a frequency above it and no earlier core has a
  frequency equal to it, then \<^verbatim>\<open>peakFreq\<close> is that frequency and \<^verbatim>\<open>peakActivity\<close> is
  the activity of core \<open>j\<close> (a later core with an equal frequency does not replace it).
  If no core has a frequency above 0, \<^verbatim>\<open>peakFreq\<close> keeps its initial 0 and
  \<^verbatim>\<open>peakActivity\<close> is not assigned.
\<close>

theorem peak_is_first_maximum:
  assumes "decode_pm pm n = Inr s" and "0 < n"
  shows "length (per_core (loop s)) = n \<and>
         (j < n \<and> py_lt (Fin 0) (fst (per_core (loop s) ! j)) \<and>
          (\<forall>k < n. \<not> py_lt (fst (per_core (loop s) ! j)) (fst (per_core (loop s) ! k))) \<and>
          (\<forall>k < j. \<not> py_eq (fst (per_core (loop s) ! k)) (fst (per_core (loop s) ! j))) \<longrightarrow>
          peakFreq (loop s) = fst (per_core (loop s) ! j) \<and>
          peakActivity (loop s) = Some (snd (per_core (loop s) ! j))) \<and>
         ((\<forall>k < n. \<not> py_lt (Fin 0) (fst (per_core (loop s) ! k))) \<longrightarrow>
          peakFreq (loop s) = Fin 0 \<and> peakActivity (loop s) = None)"
proof -
  from decode_pm_Inr [OF assms] have l: "loop s = loop_result pm n"
    by (simp add: loop_snapshot_of)
  define cs where "cs = per_core (loop s)"
  have len: "length cs = n"
    by (simp add: cs_def l per_core_loop_result)
  have run: "loop s = foldl core_step initial_vars cs"
    unfolding cs_def l by (rule loop_result_foldl)
  have start: "peakFreq initial_vars = Fin 0" "peakActivity initial_vars = None"
    by (simp_all add: initial_vars_def)
  have first: "peakFreq (loop s) = fst (cs ! j) \<and> peakActivity (loop s) = Some (snd (cs ! j))"
    if "j < n" and "py_lt (Fin 0) (fst (cs ! j))"
      and "\<forall>k < n. \<not> py_lt (fst (cs ! j)) (fst (cs ! k))"
      and "\<forall>k < j. \<not> py_eq (fst (cs ! k)) (fst (cs ! j))"
    unfolding run using that by (intro peak_first_maximum) (simp_all add: len start)
  have none: "peakFreq (loop s) = Fin 0 \<and> peakActivity (loop s) = None"
    if "\<forall>k < n. \<not> py_lt (Fin 0) (fst (cs ! k))"
  proof -
    have "\<not> py_lt (peakFreq initial_vars) (fst c)" if "c \<in> set cs" for c
    proof -
      from \<open>c \<in> set cs\<close> obtain i where "i < n" and "cs ! i = c"
        by (auto simp add: in_set_conv_nth len)
      with \<open>\<forall>k < n. \<not> py_lt (Fin 0) (fst (cs ! k))\<close> show ?thesis
        by (auto simp add: start)
    qed
    then have "\<forall>c \<in> set cs. \<not> py_lt (peakFreq initial_vars) (fst c)"
      by blast
    from peak_unchanged [OF this] show ?thesis
      by (simp add: run start)
  qed
  from len first none show ?thesis
    unfolding cs_def by blast
qed


lemma spec_example_reads:
  "float_at spec_example_table 0x000 = Fin 1" "float_at spec_example_table 0x008 = Fin 1"
  "float_at spec_example_table 0x020 = Fin 1" "float_at spec_example_table 0x024 = Fin 1"
  "float_at spec_example_table 0x30C = Fin 3" "float_at spec_example_table 0x310 = Fin 4"
  "float_at spec_example_table 0x314 = Fin 4" "float_at spec_example_table 0x318 = Fin (7 / 2)"
  "float_at spec_example_table 0x32C = Fin 10" "float_at spec_example_table 0x330 = Fin 20"
  "float_at spec_example_table 0x334 = Fin 30" "float_at spec_example_table 0x338 = Fin 40"
  "length spec_example_table = 828"
  by (simp_all add: spec_example_table_def table_eval)

lemma spec_example_decode:
  "decode_pm spec_example_table 4 =
     Inr (snapshot_of spec_example_table (loop_result spec_example_table 4) (Fin 4))"
  by (rule decode_pm_succeeds)
    (simp_all add: spec_example_reads float_of_nat_values py_eq_def)

lemma spec_example_cores:
  "per_core (loop_result spec_example_table 4) =
     [(Fin 3000, Fin 10), (Fin 4000, Fin 20), (Fin 4000, Fin 30), (Fin 3500, Fin 40)]"
  by (simp add: per_core_loop_result upt_values core_fields_def spec_example_reads
      round64_values)

theorem peak_is_first_maximum_witness:
  "decode_pm spec_example_table 4 =
     Inr (snapshot_of spec_example_table (loop_result spec_example_table 4) (Fin 4)) \<and>
   per_core (loop_result spec_example_table 4) =
     [(Fin 3000, Fin 10), (Fin 4000, Fin 20), (Fin 4000, Fin 30), (Fin 3500, Fin 40)] \<and>
   peakFreq (loop_result spec_example_table 4) = Fin 4000 \<and>
   peakActivity (loop_result spec_example_table 4) = Some (Fin 20)"
proof -
  let ?s = "snapshot_of spec_example_table (loop_result spec_example_table 4) (Fin 4)"
  have four: "(0 :: nat) < 4" by simp
  have below: "k < 4 \<longleftrightarrow> k = 0 \<or> k = 1 \<or> k = 2 \<or> k = 3" for k :: nat
    by auto
  from peak_is_first_maximum [OF spec_example_decode four, of 1]
  have "peakFreq (loop ?s) = fst (per_core (loop ?s) ! 1) \<and>
        peakActivity (loop ?s) = Some (snd (per_core (loop ?s) ! 1))"
    by (simp add: loop_snapshot_of spec_example_cores below py_eq_def)
  then have "peakFreq (loop_result spec_example_table 4) = Fin 4000 \<and>
             peakActivity (loop_result spec_example_table 4) = Some (Fin 20)"
    by (simp add: loop_snapshot_of spec_example_cores)
  then show ?thesis
    by (intro conjI spec_example_decode spec_example_cores) simp_all
qed

lemma negative_freq_reads:
  "float_at negative_freq_table 0x000 = Fin 1" "float_at negative_freq_table 0x008 = Fin 1"
  "float_at negative_freq_table 0x020 = Fin 1" "float_at negative_freq_table 0x30C = Fin (- 1)"
  "float_at negative_freq_table 0x32C = Fin 1" "length negative_freq_table = 816"
  by (simp_all add: negative_freq_table_def table_eval)

lemma negative_freq_decode:
  "decode_pm negative_freq_table 1 =
     Inr (snapshot_of negative_freq_table (loop_result negative_freq_table 1) (Fin 1))"
  by (rule decode_pm_succeeds)
    (simp_all add: negative_freq_reads float_of_nat_values py_eq_def del: One_nat_def)

lemma negative_freq_loop:
  "per_core (loop_result negative_freq_table 1) = [(Fin (- 1000), Fin 1)]"
  "peakFreq (loop_result negative_freq_table 1) = Fin 0"
  "peakActivity (loop_result negative_freq_table 1) = None"
  by (simp_all add: loop_result_def initial_vars_def core_step_def upt_values core_fields_def
      negative_freq_reads round64_values Let_def del: One_nat_def)

text \<open>
  C5, as the specification states it: for every buffer, \<^verbatim>\<open>peakFreq\<close> is the maximum of
  the per-core frequencies. In \<^const>\<open>negative_freq_table\<close> the only core has the raw
  frequency \<open>- 1.0\<close>, decoded as \<open>- 1000.0\<close>: the pass returns its values with
  \<^verbatim>\<open>peakFreq\<close> at its initial 0, not at \<open>- 1000.0\<close>, and with no peak activity.
\<close>

theorem peak_negative_counterexample:
  "\<not> isl (decode_pm negative_freq_table 1) \<and>
   per_core (loop (projr (decode_pm negative_freq_table 1))) = [(Fin (- 1000), Fin 1)] \<and>
   peakFreq (loop (projr (decode_pm negative_freq_table 1))) = Fin 0 \<and>
   peakActivity (loop (projr (decode_pm negative_freq_table 1))) = None"
  by (simp add: negative_freq_decode loop_snapshot_of negative_freq_loop del: One_nat_def)

text \<open>
  C6: whenever a pass with at least one core returns its values, the \<^verbatim>\<open>edcU\<close> of line
  164 is the float read at offset \<open>0x024\<close> times \<^verbatim>\<open>totalA / cores / 100\<close>, where
  \<^verbatim>\<open>totalA\<close> is the sum, from 0 and in the order of the cores, of the activity read
  at \<open>0x32C + i * 4\<close> for each of the \<open>n\<close> cores.
\<close>

theorem edc_raw_scaling:
  assumes "decode_pm pm n = Inr s" and "0 < n"
  shows "edcU_raw s =
           py_mul (float_at pm 0x024)
             (py_div (py_div (totalA (loop s)) (round64 (of_nat n))) (Fin 100)) \<and>
         read_float pm 0x024 = Inr (float_at pm 0x024) \<and>
         totalA (loop s) = foldl py_add (Fin 0) (map snd (per_core (loop s))) \<and>
         map snd (per_core (loop s)) = map (\<lambda>i. float_at pm (0x32C + i * 4)) [0..<n]"
proof -
  from decode_pm_Inr [OF assms]
  have len: "0x32C + 4 * n \<le> length pm"
    and s: "s = snapshot_of pm (loop_result pm n) (round64 (of_nat n))"
    by simp_all
  have "edcU_raw s =
          py_mul (float_at pm 0x024)
            (py_div (py_div (totalA (loop s)) (round64 (of_nat n))) (Fin 100))"
    by (simp add: s snapshot_of_def Let_def)
  moreover from len have "read_float pm 0x024 = Inr (float_at pm 0x024)"
    by (simp add: read_float_in_range)
  moreover have "totalA (loop s) = foldl py_add (Fin 0) (map snd (per_core (loop s)))"
    by (simp add: s loop_snapshot_of totalA_loop_result per_core_loop_result)
  moreover have "map snd (per_core (loop s)) = map (\<lambda>i. float_at pm (0x32C + i * 4)) [0..<n]"
    by (simp add: s loop_snapshot_of per_core_loop_result core_fields_def)
  ultimately show ?thesis by (intro conjI)
qed

lemma spec_example_total: "totalA (loop_result spec_example_table 4) = Fin 100"
  by (simp add: totalA_loop_result upt_values core_fields_def spec_example_reads round64_values)

lemma spec_example_edc:
  "edcU_raw (snapshot_of spec_example_table (loop_result spec_example_table 4) (Fin 4)) =
     Fin (1 / 4)"
  by (simp add: snapshot_of_def Let_def spec_example_total spec_example_reads round64_values)

theorem edc_raw_scaling_witness:
  "decode_pm spec_example_table 4 =
     Inr (snapshot_of spec_example_table (loop_result spec_example_table 4) (Fin 4)) \<and>
   totalA (loop_result spec_example_table 4) = Fin 100 \<and>
   edcU_raw (snapshot_of spec_example_table (loop_result spec_example_table 4) (Fin 4)) =
     py_mul (Fin 1) (py_div (py_div (Fin 100) (Fin 4)) (Fin 100)) \<and>
   py_mul (Fin 1) (py_div (py_div (Fin 100) (Fin 4)) (Fin 100)) = Fin (1 / 4)"
proof -
  let ?s = "snapshot_of spec_example_table (loop_result spec_example_table 4) (Fin 4)"
  have four: "(0 :: nat) < 4" by simp
  from edc_raw_scaling [OF spec_example_decode four]
  have "edcU_raw ?s =
          py_mul (float_at spec_example_table 0x024)
            (py_div (py_div (totalA (loop ?s)) (round64 (of_nat 4))) (Fin 100))"
    by (elim conjE)
  then have "edcU_raw ?s = py_mul (Fin 1) (py_div (py_div (Fin 100) (Fin 4)) (Fin 100))"
    by (simp add: loop_snapshot_of spec_example_total spec_example_reads round64_values)
  moreover have "py_mul (Fin 1) (py_div (py_div (Fin 100) (Fin 4)) (Fin 100)) = Fin (1 / 4)"
    by (simp add: round64_values)
  ultimately show ?thesis
    by (intro conjI spec_example_decode spec_example_total)
qed

text \<open>
  C7: whenever a pass returns its values, \<^verbatim>\<open>coupledMode\<close> is \<^verbatim>\<open>"ON"\<close> exactly when the
  float at offset \<open>0x128\<close> is \<^verbatim>\<open>==\<close> to the float at offset \<open>0x138\<close>, and
  \<^verbatim>\<open>"OFF"\<close> otherwise. The equality is that of Python floats: exact, with a NaN equal
  to nothing. With 1600.0 in both fields the mode is \<^verbatim>\<open>"ON"\<close>; with 1600.0 and the
  binary32 value nearest to 1599.999 it is \<^verbatim>\<open>"OFF"\<close> (\<^const>\<open>coupled_table\<close> and
  \<^const>\<open>uncoupled_table\<close> below).
\<close>

theorem coupled_mode_iff:
  assumes "decode_pm pm n = Inr s" and "0 < n"
  shows "(coupledMode s = ''ON'' \<longleftrightarrow> py_eq (uclkMHz s) (mclkMHz s)) \<and>
         (coupledMode s = ''ON'' \<or> coupledMode s = ''OFF'') \<and>
         uclkMHz s = float_at pm 0x128 \<and> mclkMHz s = float_at pm 0x138 \<and>
         read_float pm 0x128 = Inr (float_at pm 0x128) \<and>
         read_float pm 0x138 = Inr (float_at pm 0x138)"
proof -
  from decode_pm_Inr [OF assms]
  have len: "0x32C + 4 * n \<le> length pm"
    and s: "s = snapshot_of pm (loop_result pm n) (round64 (of_nat n))"
    by simp_all
  from len have "read_float pm 0x128 = Inr (float_at pm 0x128)"
    and "read_float pm 0x138 = Inr (float_at pm 0x138)"
    by (simp_all add: read_float_in_range)
  then show ?thesis
    by (simp add: s snapshot_of_def Let_def)
qed

lemma coupled_reads:
  "float_at coupled_table 0x000 = Fin 1" "float_at coupled_table 0x008 = Fin 1"
  "float_at coupled_table 0x020 = Fin 1" "float_at coupled_table 0x128 = Fin 1600"
  "float_at coupled_table 0x138 = Fin 1600" "length coupled_table = 816"
  by (simp_all add: coupled_table_def table_eval)

lemma uncoupled_reads:
  "float_at uncoupled_table 0x000 = Fin 1" "float_at uncoupled_table 0x008 = Fin 1"
  "float_at uncoupled_table 0x020 = Fin 1" "float_at uncoupled_table 0x128 = Fin 1600"
  "float_at uncoupled_table 0x138 = Fin (13107192 / 8192)" "length uncoupled_table = 816"
  by (simp_all add: uncoupled_table_def table_eval)

lemma coupled_decode:
  "decode_pm coupled_table 1 =
     Inr (snapshot_of coupled_table (loop_result coupled_table 1) (Fin 1))"
  by (rule decode_pm_succeeds)
    (simp_all add: coupled_reads float_of_nat_values py_eq_def del: One_nat_def)

lemma uncoupled_decode:
  "decode_pm uncoupled_table 1 =
     Inr (snapshot_of uncoupled_table (loop_result uncoupled_table 1) (Fin 1))"
  by (rule decode_pm_succeeds)
    (simp_all add: uncoupled_reads float_of_nat_values py_eq_def del: One_nat_def)

theorem coupled_mode_iff_witness:
  "decode_pm coupled_table 1 =
     Inr (snapshot_of coupled_table (loop_result coupled_table 1) (Fin 1)) \<and>
   float_at coupled_table 0x128 = Fin 1600 \<and> float_at coupled_table 0x138 = Fin 1600 \<and>
   coupledMode (snapshot_of coupled_table (loop_result coupled_table 1) (Fin 1)) = ''ON'' \<and>
   decode_pm uncoupled_table 1 =
     Inr (snapshot_of uncoupled_table (loop_result uncoupled_table 1) (Fin 1)) \<and>
   float_at uncoupled_table 0x128 = Fin 1600 \<and>
   float_at uncoupled_table 0x138 = Fin (13107192 / 8192) \<and>
   coupledMode (snapshot_of uncoupled_table (loop_result uncoupled_table 1) (Fin 1)) = ''OFF''"
proof -
  let ?on = "snapshot_of coupled_table (loop_result coupled_table 1) (Fin 1)"
  let ?off = "snapshot_of uncoupled_table (loop_result uncoupled_table 1) (Fin 1)"
  from coupled_mode_iff [OF coupled_decode zero_less_one]
  have "coupledMode ?on = ''ON'' \<longleftrightarrow> py_eq (uclkMHz ?on) (mclkMHz ?on)"
    and "uclkMHz ?on = float_at coupled_table 0x128"
    and "mclkMHz ?on = float_at coupled_table 0x138"
    by blast+
  then have on: "coupledMode ?on = ''ON''"
    by (simp add: coupled_reads py_eq_def del: One_nat_def)
  from coupled_mode_iff [OF uncoupled_decode zero_less_one]
  have "coupledMode ?off = ''ON'' \<longleftrightarrow> py_eq (uclkMHz ?off) (mclkMHz ?off)"
    and "uclkMHz ?off = float_at uncoupled_table 0x128"
    and "mclkMHz ?off = float_at uncoupled_table 0x138"
    and alt: "coupledMode ?off = ''ON'' \<or> coupledMode ?off = ''OFF''"
    by blast+
  then have "coupledMode ?off \<noteq> ''ON''"
    by (simp add: uncoupled_reads py_eq_def del: One_nat_def)
  with alt have off: "coupledMode ?off = ''OFF''"
    by blast
  from on off show ?thesis
    by (intro conjI coupled_decode uncoupled_decode coupled_reads uncoupled_reads)
qed

text \<open>
  C8: whenever a pass returns its values, the frequency of core \<open>i < n\<close> is the float
  read at offset \<open>0x30C + i * 4\<close> multiplied by 1000.0, once. A raw 3.5 gives 3500.0, as
  at core 3 of \<^const>\<open>spec_example_table\<close> below.
\<close>

theorem core_frequency_scaled_once:
  assumes "decode_pm pm n = Inr s" and "0 < n" and "i < n"
  shows "fst (per_core (loop s) ! i) = py_mul (float_at pm (0x30C + i * 4)) (Fin 1000) \<and>
         read_float pm (0x30C + i * 4) = Inr (float_at pm (0x30C + i * 4))"
proof -
  from decode_pm_Inr [OF assms(1,2)]
  have len: "0x32C + 4 * n \<le> length pm"
    and s: "s = snapshot_of pm (loop_result pm n) (round64 (of_nat n))"
    by simp_all
  from len assms(3) have "read_float pm (0x30C + i * 4) = Inr (float_at pm (0x30C + i * 4))"
    by (simp add: read_float_in_range)
  moreover from assms(3)
  have "fst (per_core (loop s) ! i) = py_mul (float_at pm (0x30C + i * 4)) (Fin 1000)"
    by (simp add: s loop_snapshot_of per_core_loop_result core_fields_def)
  ultimately show ?thesis by simp
qed

theorem core_frequency_scaled_once_witness:
  "decode_pm spec_example_table 4 =
     Inr (snapshot_of spec_example_table (loop_result spec_example_table 4) (Fin 4)) \<and>
   read_float spec_example_table (0x30C + 3 * 4) = Inr (Fin (7 / 2)) \<and>
   fst (per_core (loop_result spec_example_table 4) ! 3) = py_mul (Fin (7 / 2)) (Fin 1000) \<and>
   py_mul (Fin (7 / 2)) (Fin 1000) = Fin 3500"
proof -
  let ?s = "snapshot_of spec_example_table (loop_result spec_example_table 4) (Fin 4)"
  have four: "(0 :: nat) < 4" and three: "(3 :: nat) < 4" by simp_all
  from core_frequency_scaled_once [OF spec_example_decode four three]
  have "fst (per_core (loop ?s) ! 3) =
          py_mul (float_at spec_example_table (0x30C + 3 * 4)) (Fin 1000)"
    and "read_float spec_example_table (0x30C + 3 * 4) =
          Inr (float_at spec_example_table (0x30C + 3 * 4))"
    by simp_all
  then have "fst (per_core (loop_result spec_example_table 4) ! 3) =
               py_mul (Fin (7 / 2)) (Fin 1000)"
    and "read_float spec_example_table (0x30C + 3 * 4) = Inr (Fin (7 / 2))"
    by (simp_all add: loop_snapshot_of spec_example_reads)
  moreover have "py_mul (Fin (7 / 2)) (Fin 1000) = Fin 3500"
    by (simp add: round64_values)
  ultimately show ?thesis
    by (intro conjI spec_example_decode)
qed

end
